theory Spec2Isabelle
  imports Main "HOL-Library.Word"
begin

section \<open>The utility module of the SDK (src/util/index.js)\<close>

text \<open>
  The module exports one object of class \<open>Util\<close>. Its constructor stores configuration
  constants, the two families of message names and the result of the browser probe;
  its methods validate identifiers, draw random strings and join byte buffers.
  Each definition below is the translation of the source construct of the same name.
  A JavaScript string is modelled as a \<open>string\<close>; every character the source tests is
  ASCII, and a character outside ASCII belongs to no class of either pattern.
\<close>

subsection \<open>Message names\<close>

text \<open>The arrays handed to \<open>new Enum(...)\<close>, in source order.\<close>

definition clientMessages :: "string list" where
  "clientMessages =
     [''SEND_OFFER'', ''SEND_ANSWER'', ''SEND_CANDIDATE'', ''SEND_LEAVE'', ''ROOM_JOIN'',
      ''ROOM_LEAVE'', ''ROOM_GET_LOGS'', ''ROOM_GET_USERS'', ''ROOM_SEND_DATA'',
      ''SFU_GET_OFFER'', ''SFU_ANSWER'', ''SFU_CANDIDATE'', ''PING'', ''UPDATE_CREDENTIAL'']"

definition serverMessages :: "string list" where
  "serverMessages =
     [''OPEN'', ''ERROR'', ''OFFER'', ''ANSWER'', ''CANDIDATE'', ''LEAVE'', ''AUTH_EXPIRES_IN'',
      ''ROOM_LOGS'', ''ROOM_USERS'', ''ROOM_DATA'', ''ROOM_USER_JOIN'', ''ROOM_USER_LEAVE'',
      ''SFU_OFFER'']"

datatype family = CLIENT | SERVER

fun MESSAGE_TYPES :: "family \<Rightarrow> string list" where
  "MESSAGE_TYPES CLIENT = clientMessages"
| "MESSAGE_TYPES SERVER = serverMessages"

datatype lookup_error = UnknownMessageKind

record message_kind =
  kind_name :: string
  kind_code :: nat

fun position :: "string \<Rightarrow> string list \<Rightarrow> nat option" where
  "position name [] = None"
| "position name (n # ns) = (if name = n then Some 0 else map_option Suc (position name ns))"

text \<open>
  Modelled from the spec: the class \<open>Enum\<close> comes from the package \<open>enum\<close>, which is not
  under src/, so the lookup of a name is not in the source. The spec: given a name,
  return the corresponding kind value, or fail with \<open>UnknownMessageKind\<close>; a kind value
  has its canonical name and a numeric code, unique and stable. The spec does not say
  which number a name gets; the model takes the position of the name in the array the
  source hands to \<open>Enum\<close>, counted from 0, the one number the source attaches to a name.
\<close>

definition resolve :: "family \<Rightarrow> string \<Rightarrow> lookup_error + message_kind" where
  "resolve f name =
     (case position name (MESSAGE_TYPES f) of
        None \<Rightarrow> Inl UnknownMessageKind
      | Some i \<Rightarrow> Inr \<lparr>kind_name = name, kind_code = i\<rparr>)"

subsection \<open>The constructor\<close>

text \<open>
  The errors the modelled code can throw: \<open>RangeError\<close> from a typed array,
  \<open>ReferenceError\<close> from reading an identifier that is not declared.
\<close>

datatype js_error = RangeError | ReferenceError

text \<open>
  The constructor reads three properties of the browser's global object \<open>window\<close> and
  tests each for truthiness; the record holds that truthiness. The source names \<open>window\<close>
  as a free identifier, with no guard: a runtime has such a global object (\<open>Some\<close>) or
  has none (\<open>None\<close>), and reading the identifier where there is none throws.
\<close>

record window =
  mozRTCPeerConnection :: bool
  webkitRTCPeerConnection :: bool
  RTCPeerConnection :: bool

text \<open>The function expression whose result is assigned to \<open>this.browser\<close>.\<close>

definition browser_probe :: "window option \<Rightarrow> js_error + string" where
  "browser_probe g =
     (case g of
        None \<Rightarrow> Inl ReferenceError
      | Some w \<Rightarrow>
          Inr (if mozRTCPeerConnection w then ''Firefox''
               else if webkitRTCPeerConnection w then ''Chrome''
               else if RTCPeerConnection w then ''Supported''
               else ''Unsupported''))"

text \<open>
  The scalar fields the constructor sets. The fields \<open>pack\<close>, \<open>unpack\<close>, \<open>setZeroTimeout\<close>,
  \<open>chunkedBrowsers\<close> and \<open>defaultConfig\<close> are left out; \<open>MESSAGE_TYPES\<close> is the constant above.
  The probe is the last statement of the constructor: when it throws, \<open>new Util()\<close>
  throws and there is no object.
\<close>

record Util =
  DISPATCHER_HOST :: string
  DISPATCHER_PORT :: nat
  DISPATCHER_SECURE :: bool
  DISPATCHER_TIMEOUT :: nat
  TURN_HOST :: string
  TURN_PORT :: nat
  debug :: bool
  maxChunkSize :: nat
  reconnectionAttempts :: nat
  numberServersToTry :: nat
  sendInterval :: nat
  pingInterval :: nat
  browser :: string

definition constructor :: "window option \<Rightarrow> js_error + Util" where
  "constructor g =
     (case browser_probe g of
        Inl e \<Rightarrow> Inl e
      | Inr b \<Rightarrow>
          Inr \<lparr>DISPATCHER_HOST = ''dispatcher.skyway.io'',
               DISPATCHER_PORT = 443,
               DISPATCHER_SECURE = True,
               DISPATCHER_TIMEOUT = 3000,
               TURN_HOST = ''turn.skyway.io'',
               TURN_PORT = 443,
               debug = False,
               maxChunkSize = 16300,
               reconnectionAttempts = 2,
               numberServersToTry = 3,
               sendInterval = 1,
               pingInterval = 25000,
               browser = b\<rparr>)"

text \<open>
  \<open>module.exports = new Util()\<close> runs when the module is loaded, and loading fails when
  the constructor throws. A runtime is the global object, if any, together with the
  exported object; the global object may change later, and \<open>util.browser\<close> is a read of
  the stored field.
\<close>

record runtime =
  global_window :: "window option"
  module_exports :: Util

definition load_module :: "window option \<Rightarrow> js_error + runtime" where
  "load_module g =
     (case constructor g of
        Inl e \<Rightarrow> Inl e
      | Inr util \<Rightarrow> Inr \<lparr>global_window = g, module_exports = util\<rparr>)"

definition read_browser :: "runtime \<Rightarrow> string" where
  "read_browser rt = browser (module_exports rt)"

subsection \<open>Values and regular expressions of JavaScript\<close>

text \<open>
  The values the two validators can return: a boolean, \<open>null\<close>, or the match array of
  \<open>RegExp.prototype.exec\<close>, of which element 0 (the matched text) is kept; the captured
  group of the key pattern is not modelled.
\<close>

datatype js_value = JSBool bool | JSNull | JSMatch string

fun truthy :: "js_value \<Rightarrow> bool" where
  "truthy (JSBool b) = b"
| "truthy JSNull = False"
| "truthy (JSMatch m) = True"

fun is_boolean :: "js_value \<Rightarrow> bool" where
  "is_boolean (JSBool b) = True"
| "is_boolean JSNull = False"
| "is_boolean (JSMatch m) = False"

text \<open>An argument is a string or absent (\<open>undefined\<close>, here \<open>None\<close>).\<close>

fun ToBoolean :: "string option \<Rightarrow> bool" where
  "ToBoolean None = False"
| "ToBoolean (Some s) = (s \<noteq> [])"

fun ToString :: "string option \<Rightarrow> string" where
  "ToString None = ''undefined''"
| "ToString (Some s) = s"

text \<open>\<open>a || b\<close> is \<open>a\<close> when \<open>a\<close> is truthy and \<open>b\<close> otherwise.\<close>

definition js_or :: "js_value \<Rightarrow> js_value \<Rightarrow> js_value" where
  "js_or a b = (if truthy a then a else b)"

text \<open>
  A character class is a list of ranges, \<open>[A-Za-z0-9_-]\<close> being
  \<open>[(A, Z), (a, z), (0, 9), (_, _), (-, -)]\<close>; a pattern is built from classes,
  sequence, alternative, \<open>*\<close> and the empty pattern; \<open>r+\<close> is \<open>r r*\<close> and \<open>r{n}\<close> is \<open>n\<close>
  copies of \<open>r\<close>.
\<close>

type_synonym char_class = "(char \<times> char) list"

datatype regex =
    Class char_class
  | Cat regex regex
  | Alt regex regex
  | Star regex
  | Eps

definition in_class :: "char_class \<Rightarrow> char \<Rightarrow> bool" where
  "in_class cs c =
     list_ex (\<lambda>(lo, hi). (of_char lo :: nat) \<le> of_char c \<and> (of_char c :: nat) \<le> of_char hi) cs"

definition one_or_more :: "regex \<Rightarrow> regex" where
  "one_or_more r = Cat r (Star r)"

fun exactly :: "nat \<Rightarrow> regex \<Rightarrow> regex" where
  "exactly 0 r = Eps"
| "exactly (Suc n) r = Cat r (exactly n r)"

text \<open>
  Both patterns of the source are anchored by \<open>^\<close> and \<open>$\<close> and have no flags, so \<open>exec\<close>
  finds a match exactly when the whole input can be matched, and the match is then the
  whole input. The matcher decides that by taking the derivative of the pattern along
  the input.
\<close>

fun nullable :: "regex \<Rightarrow> bool" where
  "nullable (Class cs) = False"
| "nullable (Cat r s) = (nullable r \<and> nullable s)"
| "nullable (Alt r s) = (nullable r \<or> nullable s)"
| "nullable (Star r) = True"
| "nullable Eps = True"

fun deriv :: "char \<Rightarrow> regex \<Rightarrow> regex" where
  "deriv c (Class cs) = (if in_class cs c then Eps else Class [])"
| "deriv c (Cat r s) =
     (if nullable r then Alt (Cat (deriv c r) s) (deriv c s) else Cat (deriv c r) s)"
| "deriv c (Alt r s) = Alt (deriv c r) (deriv c s)"
| "deriv c (Star r) = Cat (deriv c r) (Star r)"
| "deriv c Eps = Class []"

fun matches :: "regex \<Rightarrow> string \<Rightarrow> bool" where
  "matches r [] = nullable r"
| "matches r (c # s) = matches (deriv c r) s"

text \<open>\<open>/^r$/.exec(arg)\<close>: the argument is converted to a string first.\<close>

definition regex_exec :: "regex \<Rightarrow> string option \<Rightarrow> js_value" where
  "regex_exec r arg = (let s = ToString arg in if matches r s then JSMatch s else JSNull)"

text \<open>The strings a pattern denotes, the reference the matcher is proved against.\<close>

inductive_set star :: "string set \<Rightarrow> string set" for A :: "string set" where
  star_empty: "[] \<in> star A"
| star_step: "u \<in> A \<Longrightarrow> v \<in> star A \<Longrightarrow> u @ v \<in> star A"

fun lang :: "regex \<Rightarrow> string set" where
  "lang (Class cs) = {[c] | c. in_class cs c}"
| "lang (Cat r s) = {u @ v | u v. u \<in> lang r \<and> v \<in> lang s}"
| "lang (Alt r s) = lang r \<union> lang s"
| "lang (Star r) = star (lang r)"
| "lang Eps = {[]}"

subsection \<open>The validators\<close>

definition word_class :: char_class where
  "word_class = [(CHR ''A'', CHR ''Z''), (CHR ''a'', CHR ''z''), (CHR ''0'', CHR ''9''),
                 (CHR ''_'', CHR ''_''), (CHR ''-'', CHR ''-'')]"

definition sep_class :: char_class where
  "sep_class = [(CHR '' '', CHR '' ''), (CHR ''_'', CHR ''_''), (CHR ''-'', CHR ''-'')]"

definition alnum_class :: char_class where
  "alnum_class = [(CHR ''A'', CHR ''Z''), (CHR ''a'', CHR ''z''), (CHR ''0'', CHR ''9'')]"

definition key_class :: char_class where
  "key_class = [(CHR ''a'', CHR ''z''), (CHR ''0'', CHR ''9'')]"

definition hyphen :: regex where
  "hyphen = Class [(CHR ''-'', CHR ''-'')]"

text \<open>\<open>/^[A-Za-z0-9_-]+(?:[ _-][A-Za-z0-9]+)*$/\<close>\<close>

definition validateId_re :: regex where
  "validateId_re =
     Cat (one_or_more (Class word_class))
         (Star (Cat (Class sep_class) (one_or_more (Class alnum_class))))"

text \<open>\<open>/^[a-z0-9]{8}(-[a-z0-9]{4}){3}-[a-z0-9]{12}$/\<close>\<close>

definition validateKey_re :: regex where
  "validateKey_re =
     Cat (exactly 8 (Class key_class))
       (Cat (exactly 3 (Cat hyphen (exactly 4 (Class key_class))))
         (Cat hyphen (exactly 12 (Class key_class))))"

text \<open>\<open>return !id || /.../.exec(id);\<close>\<close>

definition validateId :: "string option \<Rightarrow> js_value" where
  "validateId peerId = js_or (JSBool (\<not> ToBoolean peerId)) (regex_exec validateId_re peerId)"

text \<open>\<open>return !key || /.../.exec(key);\<close>\<close>

definition validateKey :: "string option \<Rightarrow> js_value" where
  "validateKey key = js_or (JSBool (\<not> ToBoolean key)) (regex_exec validateKey_re key)"

subsection \<open>Random strings\<close>

text \<open>
  \<open>Math.random().toString(36)\<close> renders a double of the interval from 0 (included) to 1
  (excluded) in base 36, by an algorithm the language leaves to the implementation. The
  methods below take that rendering as their argument. It is \<open>0\<close> for the number 0 and
  otherwise \<open>0.\<close> followed by at least one digit of \<open>0-9a-z\<close>.
\<close>

definition digit36 :: "char \<Rightarrow> bool" where
  "digit36 c = in_class [(CHR ''0'', CHR ''9''), (CHR ''a'', CHR ''z'')] c"

definition rendering :: "string \<Rightarrow> bool" where
  "rendering r = (r = ''0'' \<or> (take 2 r = ''0.'' \<and> 2 < length r \<and> list_all digit36 (drop 2 r)))"

text \<open>\<open>String.prototype.substr(start)\<close> and \<open>substr(start, length)\<close>, for arguments that
  are not negative.\<close>

definition substr_from :: "string \<Rightarrow> nat \<Rightarrow> string" where
  "substr_from s start = drop start s"

definition substr :: "string \<Rightarrow> nat \<Rightarrow> nat \<Rightarrow> string" where
  "substr s start len = take len (drop start s)"

definition randomToken :: "string \<Rightarrow> string" where
  "randomToken rendered = substr_from rendered 2"

definition randomId :: "string \<Rightarrow> string" where
  "randomId rendered =
     (let keyLength = 16;
          randString = rendered @ ''0000000000000000000''
      in substr randString 2 keyLength)"

subsection \<open>Joining byte buffers\<close>

text \<open>
  An \<open>ArrayBuffer\<close> is a list of bytes. \<open>Uint8Array.prototype.set(source, offset)\<close>
  copies \<open>source\<close> into the target from \<open>offset\<close> on and throws a \<open>RangeError\<close> when the
  source does not fit.
\<close>

type_synonym byte = "8 word"
type_synonym ArrayBuffer = "byte list"

definition byteLength :: "ArrayBuffer \<Rightarrow> nat" where
  "byteLength buffer = length buffer"

definition typed_array_set :: "byte list \<Rightarrow> byte list \<Rightarrow> nat \<Rightarrow> js_error + byte list" where
  "typed_array_set target source offset =
     (if offset + length source > length target then Inl RangeError
      else Inr (take offset target @ source @ drop (offset + length source) target))"

text \<open>The \<open>for ... of\<close> loop of \<open>joinArrayBuffers\<close>, carrying \<open>tmpArray\<close> and \<open>currPos\<close>.\<close>

fun join_loop :: "ArrayBuffer list \<Rightarrow> byte list \<Rightarrow> nat \<Rightarrow> js_error + byte list" where
  "join_loop [] tmpArray currPos = Inr tmpArray"
| "join_loop (buffer # buffers) tmpArray currPos =
     (case typed_array_set tmpArray buffer currPos of
        Inl e \<Rightarrow> Inl e
      | Inr tmpArray' \<Rightarrow> join_loop buffers tmpArray' (currPos + byteLength buffer))"

definition joinArrayBuffers :: "ArrayBuffer list \<Rightarrow> js_error + ArrayBuffer" where
  "joinArrayBuffers buffers =
     (let size = foldl (\<lambda>sum buffer. sum + byteLength buffer) 0 buffers;
          tmpArray = replicate size (0 :: byte)
      in join_loop buffers tmpArray 0)"

subsection \<open>The words of the specification\<close>

text \<open>The names of the two families as section 3 of the specification lists them.\<close>

definition ClientMessageKind :: "string list" where
  "ClientMessageKind =
     [''SEND_OFFER'', ''SEND_ANSWER'', ''SEND_CANDIDATE'', ''SEND_LEAVE'', ''ROOM_JOIN'',
      ''ROOM_LEAVE'', ''ROOM_GET_LOGS'', ''ROOM_GET_USERS'', ''ROOM_SEND_DATA'',
      ''SFU_GET_OFFER'', ''SFU_ANSWER'', ''SFU_CANDIDATE'', ''PING'', ''UPDATE_CREDENTIAL'']"

definition ServerMessageKind :: "string list" where
  "ServerMessageKind =
     [''OPEN'', ''ERROR'', ''OFFER'', ''ANSWER'', ''CANDIDATE'', ''LEAVE'', ''AUTH_EXPIRES_IN'',
      ''ROOM_LOGS'', ''ROOM_USERS'', ''ROOM_DATA'', ''ROOM_USER_JOIN'', ''ROOM_USER_LEAVE'',
      ''SFU_OFFER'']"

fun listed_names :: "family \<Rightarrow> string list" where
  "listed_names CLIENT = ClientMessageKind"
| "listed_names SERVER = ServerMessageKind"

text \<open>
  Predicates on identifiers named after the specification's words: a separator is a
  space, an underscore or a hyphen; an allowed character is alphanumeric or a separator.
\<close>

definition separator :: "char \<Rightarrow> bool" where
  "separator c = (c = CHR '' '' \<or> c = CHR ''_'' \<or> c = CHR ''-'')"

definition alphanumeric :: "char \<Rightarrow> bool" where
  "alphanumeric c = in_class alnum_class c"

definition is_space :: "char \<Rightarrow> bool" where
  "is_space c = (c = CHR '' '')"

definition allowed :: "char \<Rightarrow> bool" where
  "allowed c = (alphanumeric c \<or> separator c)"

definition leading :: "(char \<Rightarrow> bool) \<Rightarrow> string \<Rightarrow> bool" where
  "leading P s = (s \<noteq> [] \<and> P (hd s))"

definition trailing :: "(char \<Rightarrow> bool) \<Rightarrow> string \<Rightarrow> bool" where
  "trailing P s = (s \<noteq> [] \<and> P (last s))"

fun consecutive :: "(char \<Rightarrow> bool) \<Rightarrow> string \<Rightarrow> bool" where
  "consecutive P [] = False"
| "consecutive P [c] = False"
| "consecutive P (c # d # s) = (P c \<and> P d \<or> consecutive P (d # s))"

text \<open>
  The shape the identifier pattern accepts: a first segment of alphanumerics, underscores
  and hyphens, then groups of one separator and a segment of alphanumerics.
\<close>

definition groups :: "(char \<times> string) list \<Rightarrow> string" where
  "groups gs = concat (map (\<lambda>(c, a). c # a) gs)"

definition group_ok :: "char \<times> string \<Rightarrow> bool" where
  "group_ok g =
     (in_class sep_class (fst g) \<and> snd g \<noteq> [] \<and> list_all (in_class alnum_class) (snd g))"

definition segmented :: "string \<Rightarrow> bool" where
  "segmented s =
     (\<exists>w gs. s = w @ groups gs \<and> w \<noteq> [] \<and> list_all (in_class word_class) w \<and>
             list_all group_ok gs)"

text \<open>
  Five groups of 8, 4, 4, 4 and 12 characters of a given kind, joined by hyphens; the
  canonical text of a UUID has lowercase hexadecimal digits in them.
\<close>

definition grouped :: "(char \<Rightarrow> bool) \<Rightarrow> string \<Rightarrow> bool" where
  "grouped P k =
     (\<exists>a b c d e. k = a @ ''-'' @ b @ ''-'' @ c @ ''-'' @ d @ ''-'' @ e \<and>
        length a = 8 \<and> length b = 4 \<and> length c = 4 \<and> length d = 4 \<and> length e = 12 \<and>
        list_all P (a @ b @ c @ d @ e))"

definition lower_hex :: "char \<Rightarrow> bool" where
  "lower_hex c = in_class [(CHR ''0'', CHR ''9''), (CHR ''a'', CHR ''f'')] c"

definition canonical_uuid :: "string \<Rightarrow> bool" where
  "canonical_uuid k = grouped lower_hex k"

section \<open>Properties\<close>

subsection \<open>The matcher decides membership in the language of a pattern\<close>

lemma in_class_Nil [simp]: "\<not> in_class [] c"
  by (simp add: in_class_def)

lemma star_nonempty_step:
  "w \<in> star A \<Longrightarrow> w \<noteq> [] \<Longrightarrow> \<exists>u v. w = u @ v \<and> u \<noteq> [] \<and> u \<in> A \<and> v \<in> star A"
proof (induction rule: star.induct)
  case star_empty
  then show ?case by simp
next
  case (star_step u v)
  show ?case
  proof (cases "u = []")
    case True
    with star_step show ?thesis by simp
  next
    case False
    with star_step.hyps show ?thesis by blast
  qed
qed

lemma star_Cons_iff:
  "c # w \<in> star A \<longleftrightarrow> (\<exists>u v. w = u @ v \<and> c # u \<in> A \<and> v \<in> star A)"
proof
  assume "c # w \<in> star A"
  then obtain u v where uv: "c # w = u @ v" "u \<noteq> []" "u \<in> A" "v \<in> star A"
    using star_nonempty_step by blast
  then obtain u' where "u = c # u'" by (cases u) auto
  with uv show "\<exists>u v. w = u @ v \<and> c # u \<in> A \<and> v \<in> star A" by auto
next
  assume "\<exists>u v. w = u @ v \<and> c # u \<in> A \<and> v \<in> star A"
  then obtain u v where "w = u @ v" "c # u \<in> A" "v \<in> star A" by blast
  then show "c # w \<in> star A" using star_step [of "c # u" A v] by simp
qed

lemma nullable_lang: "nullable r \<longleftrightarrow> [] \<in> lang r"
  by (induction r) (auto intro: star_empty)

lemma lang_deriv: "w \<in> lang (deriv c r) \<longleftrightarrow> c # w \<in> lang r"
proof (induction r arbitrary: w)
  case (Class cs)
  then show ?case by auto
next
  case (Cat r s)
  show ?case
    by (auto simp: Cat nullable_lang Cons_eq_append_conv)
next
  case (Alt r s)
  then show ?case by simp
next
  case (Star r)
  then show ?case by (auto simp: star_Cons_iff)
next
  case Eps
  then show ?case by simp
qed

lemma matches_lang: "matches r s \<longleftrightarrow> s \<in> lang r"
  by (induction s arbitrary: r) (simp_all add: nullable_lang lang_deriv)

declare lang.simps [simp del]

lemma Cat_Class_Nil: "[] \<notin> lang (Cat (Class cs) r)"
  by (simp add: lang.simps)

lemma Cat_Class_Cons: "c # v \<in> lang (Cat (Class cs) r) \<longleftrightarrow> in_class cs c \<and> v \<in> lang r"
proof
  assume "c # v \<in> lang (Cat (Class cs) r)"
  then obtain u v' where uv: "c # v = u @ v'" "u \<in> lang (Class cs)" "v' \<in> lang r"
    by (auto simp: lang.simps)
  from uv(2) obtain d where d: "u = [d]" "in_class cs d"
    by (auto simp: lang.simps)
  with uv show "in_class cs c \<and> v \<in> lang r" by simp
next
  assume a: "in_class cs c \<and> v \<in> lang r"
  then have "[c] \<in> lang (Class cs)" by (simp add: lang.simps)
  with a have "\<exists>u v'. c # v = u @ v' \<and> u \<in> lang (Class cs) \<and> v' \<in> lang r"
    by (intro exI [of _ "[c]"] exI [of _ v]) simp
  then show "c # v \<in> lang (Cat (Class cs) r)" by (simp add: lang.simps)
qed

lemma star_Class: "w \<in> lang (Star (Class cs)) \<longleftrightarrow> list_all (in_class cs) w"
proof
  assume "w \<in> lang (Star (Class cs))"
  then have "w \<in> star (lang (Class cs))" by (simp add: lang.simps)
  then show "list_all (in_class cs) w"
    by (induction rule: star.induct) (auto simp: lang.simps)
next
  assume "list_all (in_class cs) w"
  then have "w \<in> star (lang (Class cs))"
  proof (induction w)
    case Nil
    show ?case by (rule star_empty)
  next
    case (Cons c w)
    then have "[c] \<in> lang (Class cs)" and "w \<in> star (lang (Class cs))"
      by (simp_all add: lang.simps)
    then have "[c] @ w \<in> star (lang (Class cs))" by (rule star_step)
    then show ?case by simp
  qed
  then show "w \<in> lang (Star (Class cs))" by (simp add: lang.simps)
qed

lemma lang_one_or_more_Class:
  "w \<in> lang (one_or_more (Class cs)) \<longleftrightarrow> w \<noteq> [] \<and> list_all (in_class cs) w"
  by (cases w) (simp_all add: one_or_more_def Cat_Class_Nil Cat_Class_Cons star_Class)

lemma lang_exactly_Class:
  "w \<in> lang (exactly n (Class cs)) \<longleftrightarrow> length w = n \<and> list_all (in_class cs) w"
proof (induction n arbitrary: w)
  case 0
  show ?case by (auto simp: lang.simps)
next
  case (Suc n)
  show ?case
    by (cases w) (auto simp: Cat_Class_Nil Cat_Class_Cons Suc)
qed

lemma lang_group:
  "u \<in> lang (Cat (Class sep_class) (one_or_more (Class alnum_class))) \<longleftrightarrow>
   (\<exists>g. u = fst g # snd g \<and> group_ok g)"
proof (cases u)
  case Nil
  then show ?thesis by (simp add: Cat_Class_Nil)
next
  case (Cons c a)
  have "c # a \<in> lang (Cat (Class sep_class) (one_or_more (Class alnum_class))) \<longleftrightarrow>
          in_class sep_class c \<and> a \<in> lang (one_or_more (Class alnum_class))"
    by (rule Cat_Class_Cons)
  then show ?thesis using Cons
    by (auto simp: lang_one_or_more_Class group_ok_def)
qed

lemma star_groups:
  "v \<in> star (lang (Cat (Class sep_class) (one_or_more (Class alnum_class)))) \<longleftrightarrow>
   (\<exists>gs. v = groups gs \<and> list_all group_ok gs)"
proof
  show "v \<in> star (lang (Cat (Class sep_class) (one_or_more (Class alnum_class)))) \<Longrightarrow>
        \<exists>gs. v = groups gs \<and> list_all group_ok gs"
  proof (induction rule: star.induct)
    case star_empty
    have "[] = groups [] \<and> list_all group_ok []" by (simp add: groups_def)
    then show ?case by blast
  next
    case (star_step u v)
    then obtain g gs where "u = fst g # snd g" "group_ok g" "v = groups gs" "list_all group_ok gs"
      unfolding lang_group by blast
    then have "u @ v = groups (g # gs) \<and> list_all group_ok (g # gs)"
      by (simp add: groups_def case_prod_beta)
    then show ?case by blast
  qed
next
  assume "\<exists>gs. v = groups gs \<and> list_all group_ok gs"
  then obtain gs where "v = groups gs" "list_all group_ok gs" by blast
  then show "v \<in> star (lang (Cat (Class sep_class) (one_or_more (Class alnum_class))))"
  proof (induction gs arbitrary: v)
    case Nil
    then show ?case by (simp add: groups_def star_empty)
  next
    case (Cons g gs)
    have "fst g # snd g \<in> lang (Cat (Class sep_class) (one_or_more (Class alnum_class)))"
      using Cons.prems(2) unfolding lang_group by auto
    moreover have "groups gs \<in> star (lang (Cat (Class sep_class) (one_or_more (Class alnum_class))))"
      using Cons.IH Cons.prems(2) by simp
    ultimately have "(fst g # snd g) @ groups gs
        \<in> star (lang (Cat (Class sep_class) (one_or_more (Class alnum_class))))"
      by (rule star_step)
    then show ?case using Cons.prems(1) by (simp add: groups_def case_prod_beta)
  qed
qed

lemma lang_validateId_re:
  "s \<in> lang validateId_re \<longleftrightarrow>
   (\<exists>w gs. s = w @ groups gs \<and> w \<noteq> [] \<and> list_all (in_class word_class) w \<and>
            list_all group_ok gs)"
proof -
  have "s \<in> lang validateId_re \<longleftrightarrow>
        (\<exists>w v. s = w @ v \<and> w \<in> lang (one_or_more (Class word_class)) \<and>
               v \<in> star (lang (Cat (Class sep_class) (one_or_more (Class alnum_class)))))"
    by (auto simp: validateId_re_def lang.simps)
  then show ?thesis
    unfolding lang_one_or_more_Class star_groups by blast
qed

lemma in_class_Cons: "in_class ((lo, hi) # cs) c \<longleftrightarrow>
    (of_char lo :: nat) \<le> of_char c \<and> (of_char c :: nat) \<le> of_char hi \<or> in_class cs c"
  by (simp add: in_class_def)

lemma in_class_single: "in_class ((d, d) # cs) c \<longleftrightarrow> c = d \<or> in_class cs c"
  by (auto simp: in_class_Cons)

lemma sep_class_iff: "in_class sep_class c \<longleftrightarrow> separator c"
  by (auto simp: sep_class_def separator_def in_class_single)

lemma in_class_append: "in_class (xs @ ys) c \<longleftrightarrow> in_class xs c \<or> in_class ys c"
  by (simp add: in_class_def)

lemma word_class_iff: "in_class word_class c \<longleftrightarrow> alphanumeric c \<or> c = CHR ''_'' \<or> c = CHR ''-''"
proof -
  have w: "word_class = alnum_class @ [(CHR ''_'', CHR ''_''), (CHR ''-'', CHR ''-'')]"
    by (simp add: word_class_def alnum_class_def)
  show ?thesis
    unfolding w by (simp add: in_class_append in_class_single alphanumeric_def)
qed

lemma alphanumeric_not_separator: "alphanumeric c \<Longrightarrow> \<not> separator c"
  by (auto simp: alphanumeric_def alnum_class_def separator_def in_class_Cons)

lemma consecutive_none: "list_all (\<lambda>c. \<not> P c) a \<Longrightarrow> \<not> consecutive P (c # a)"
  by (induction a arbitrary: c) auto

lemma consecutive_append:
  "consecutive P (u @ v) \<longleftrightarrow>
     consecutive P u \<or> consecutive P v \<or> (u \<noteq> [] \<and> v \<noteq> [] \<and> P (last u) \<and> P (hd v))"
proof (induction P u rule: consecutive.induct)
  case (1 P)
  then show ?case by simp
next
  case (2 P c)
  then show ?case by (cases v) auto
next
  case (3 P c d s)
  then show ?case by auto
qed

lemma alphanumeric_not_space: "alphanumeric c \<Longrightarrow> \<not> is_space c"
  using alphanumeric_not_separator [of c] by (simp add: separator_def is_space_def)

lemma word_not_space: "in_class word_class c \<Longrightarrow> \<not> is_space c"
  using alphanumeric_not_space [of c] by (auto simp: word_class_iff is_space_def)

lemma word_allowed: "in_class word_class c \<Longrightarrow> allowed c"
  by (auto simp: word_class_iff allowed_def separator_def)

lemma group_facts:
  assumes "group_ok g"
  shows "\<not> consecutive is_space (fst g # snd g)"
    and "\<not> is_space (last (fst g # snd g))"
    and "list_all allowed (fst g # snd g)"
proof -
  from assms have a: "list_all alphanumeric (snd g)" and ne: "snd g \<noteq> []"
    and sep: "separator (fst g)"
    by (simp_all add: group_ok_def alphanumeric_def [abs_def] sep_class_iff)
  from a have ns: "list_all (\<lambda>c. \<not> is_space c) (snd g)"
    by (auto simp: list_all_iff alphanumeric_not_space)
  then show "\<not> consecutive is_space (fst g # snd g)" by (rule consecutive_none)
  from ns ne show "\<not> is_space (last (fst g # snd g))"
    by (auto simp: list_all_iff)
  from a sep show "list_all allowed (fst g # snd g)"
    by (auto simp: list_all_iff allowed_def)
qed

lemma groups_Cons: "groups (g # gs) = (fst g # snd g) @ groups gs"
  by (simp add: groups_def case_prod_beta)

lemma groups_facts:
  "list_all group_ok gs \<Longrightarrow>
   \<not> consecutive is_space (groups gs) \<and> \<not> trailing is_space (groups gs) \<and>
   list_all allowed (groups gs)"
proof (induction gs)
  case Nil
  then show ?case by (simp add: groups_def trailing_def)
next
  case (Cons g gs)
  then have g: "group_ok g" and ih: "\<not> consecutive is_space (groups gs)"
    "\<not> trailing is_space (groups gs)" "list_all allowed (groups gs)"
    by simp_all
  note gf = group_facts [OF g]
  have "\<not> consecutive is_space ((fst g # snd g) @ groups gs)"
    unfolding consecutive_append using gf(1,2) ih(1) by simp
  moreover have "\<not> trailing is_space ((fst g # snd g) @ groups gs)"
    using gf(2) ih(2) by (cases "groups gs = []") (simp_all add: trailing_def)
  moreover have "list_all allowed ((fst g # snd g) @ groups gs)"
    using gf(3) ih(3) by simp
  ultimately show ?case unfolding groups_Cons by blast
qed

lemma segmented_facts:
  assumes "s = w @ groups gs" "w \<noteq> []" "list_all (in_class word_class) w" "list_all group_ok gs"
  shows "\<not> leading is_space s \<and> \<not> trailing is_space s \<and> \<not> consecutive is_space s \<and>
         list_all allowed s"
proof -
  from assms(3) have ns: "list_all (\<lambda>c. \<not> is_space c) w" and al: "list_all allowed w"
    by (auto simp: list_all_iff word_not_space word_allowed)
  note gf = groups_facts [OF assms(4)]
  from ns assms(2) have hd: "\<not> is_space (hd w)" and lst: "\<not> is_space (last w)"
    by (auto simp: list_all_iff)
  from ns assms(2) have cw: "\<not> consecutive is_space w"
    using consecutive_none [of is_space "tl w" "hd w"] by (cases w) simp_all
  have "\<not> leading is_space s" using hd assms(1,2) by (simp add: leading_def)
  moreover have "\<not> trailing is_space s"
    using lst gf assms(1,2) by (cases "groups gs = []") (simp_all add: trailing_def)
  moreover have "\<not> consecutive is_space s"
    unfolding assms(1) consecutive_append using cw lst gf by simp
  moreover have "list_all allowed s" using al gf assms(1) by simp
  ultimately show ?thesis by simp
qed

lemma in_lang_Cat: "w \<in> lang (Cat r s) \<longleftrightarrow> (\<exists>u v. w = u @ v \<and> u \<in> lang r \<and> v \<in> lang s)"
  by (auto simp: lang.simps)

lemma in_lang_Eps: "w \<in> lang Eps \<longleftrightarrow> w = []"
  by (simp add: lang.simps)

lemma hyphen_Cons: "w \<in> lang (Cat hyphen r) \<longleftrightarrow> (\<exists>v. w = CHR ''-'' # v \<and> v \<in> lang r)"
  by (cases w) (auto simp: hyphen_def Cat_Class_Nil Cat_Class_Cons in_class_single)

lemma lang_hyphen_group:
  "w \<in> lang (Cat hyphen (exactly 4 (Class key_class))) \<longleftrightarrow>
   (\<exists>b. w = CHR ''-'' # b \<and> length b = 4 \<and> list_all (in_class key_class) b)"
  by (simp add: hyphen_Cons lang_exactly_Class)

lemma lang_exactly3:
  "w \<in> lang (exactly 3 r) \<longleftrightarrow>
   (\<exists>g1 g2 g3. w = g1 @ g2 @ g3 \<and> g1 \<in> lang r \<and> g2 \<in> lang r \<and> g3 \<in> lang r)"
proof -
  have "exactly 3 r = Cat r (Cat r (Cat r Eps))" by (simp add: eval_nat_numeral)
  then show ?thesis by (auto simp: in_lang_Cat in_lang_Eps)
qed

lemma lang_three_groups:
  "w \<in> lang (exactly 3 (Cat hyphen (exactly 4 (Class key_class)))) \<longleftrightarrow>
   (\<exists>b c d. w = ''-'' @ b @ ''-'' @ c @ ''-'' @ d \<and> length b = 4 \<and> length c = 4 \<and> length d = 4 \<and>
       list_all (in_class key_class) (b @ c @ d))"
  (is "?L \<longleftrightarrow> ?R")
proof
  assume ?L
  then obtain g1 g2 g3 where w: "w = g1 @ g2 @ g3"
    and g: "g1 \<in> lang (Cat hyphen (exactly 4 (Class key_class)))"
           "g2 \<in> lang (Cat hyphen (exactly 4 (Class key_class)))"
           "g3 \<in> lang (Cat hyphen (exactly 4 (Class key_class)))"
    unfolding lang_exactly3 by blast
  from g obtain b c d where "g1 = CHR ''-'' # b" "g2 = CHR ''-'' # c" "g3 = CHR ''-'' # d"
    "length b = 4" "length c = 4" "length d = 4"
    "list_all (in_class key_class) b" "list_all (in_class key_class) c"
    "list_all (in_class key_class) d"
    unfolding lang_hyphen_group by blast
  with w have "w = ''-'' @ b @ ''-'' @ c @ ''-'' @ d \<and> length b = 4 \<and> length c = 4 \<and>
      length d = 4 \<and> list_all (in_class key_class) (b @ c @ d)"
    by simp
  then show ?R by blast
next
  assume ?R
  then obtain b c d where w: "w = ''-'' @ b @ ''-'' @ c @ ''-'' @ d"
    and l: "length b = 4" "length c = 4" "length d = 4"
    and k: "list_all (in_class key_class) (b @ c @ d)"
    by blast
  have "CHR ''-'' # b \<in> lang (Cat hyphen (exactly 4 (Class key_class)))"
       "CHR ''-'' # c \<in> lang (Cat hyphen (exactly 4 (Class key_class)))"
       "CHR ''-'' # d \<in> lang (Cat hyphen (exactly 4 (Class key_class)))"
    using l k by (simp_all add: lang_hyphen_group)
  then have "(CHR ''-'' # b) @ (CHR ''-'' # c) @ (CHR ''-'' # d)
      \<in> lang (exactly 3 (Cat hyphen (exactly 4 (Class key_class))))"
    unfolding lang_exactly3 by blast
  with w show ?L by simp
qed

lemma lang_validateKey_re: "k \<in> lang validateKey_re \<longleftrightarrow> grouped (in_class key_class) k"
  (is "?L \<longleftrightarrow> ?R")
proof
  assume ?L
  then obtain a m t where k: "k = a @ m @ t"
    and a: "a \<in> lang (exactly 8 (Class key_class))"
    and m: "m \<in> lang (exactly 3 (Cat hyphen (exactly 4 (Class key_class))))"
    and t: "t \<in> lang (Cat hyphen (exactly 12 (Class key_class)))"
    unfolding validateKey_re_def in_lang_Cat by blast
  from m obtain b c d where m': "m = ''-'' @ b @ ''-'' @ c @ ''-'' @ d"
    "length b = 4" "length c = 4" "length d = 4" "list_all (in_class key_class) (b @ c @ d)"
    unfolding lang_three_groups by blast
  from t obtain e where t': "t = ''-'' @ e" "length e = 12" "list_all (in_class key_class) e"
    by (auto simp: hyphen_Cons lang_exactly_Class)
  from a have a': "length a = 8" "list_all (in_class key_class) a"
    by (simp_all add: lang_exactly_Class)
  have "k = a @ ''-'' @ b @ ''-'' @ c @ ''-'' @ d @ ''-'' @ e \<and>
        length a = 8 \<and> length b = 4 \<and> length c = 4 \<and> length d = 4 \<and> length e = 12 \<and>
        list_all (in_class key_class) (a @ b @ c @ d @ e)"
    using k m' t' a' by simp
  then show ?R unfolding grouped_def by blast
next
  assume ?R
  then obtain a b c d e where k: "k = a @ ''-'' @ b @ ''-'' @ c @ ''-'' @ d @ ''-'' @ e"
    and l: "length a = 8" "length b = 4" "length c = 4" "length d = 4" "length e = 12"
    and p: "list_all (in_class key_class) (a @ b @ c @ d @ e)"
    unfolding grouped_def by blast
  have "a \<in> lang (exactly 8 (Class key_class))"
    using l p by (simp add: lang_exactly_Class)
  moreover have "''-'' @ b @ ''-'' @ c @ ''-'' @ d \<in> lang (exactly 3 (Cat hyphen (exactly 4 (Class key_class))))"
    unfolding lang_three_groups using l p by auto
  moreover have "''-'' @ e \<in> lang (Cat hyphen (exactly 12 (Class key_class)))"
    using l p by (simp add: hyphen_Cons lang_exactly_Class)
  ultimately have "a @ (''-'' @ b @ ''-'' @ c @ ''-'' @ d) @ (''-'' @ e) \<in> lang validateKey_re"
    unfolding validateKey_re_def in_lang_Cat by blast
  with k show ?L by simp
qed

lemma grouped_hd: "grouped P k \<Longrightarrow> P (hd k)"
  by (auto simp: grouped_def length_Suc_conv eval_nat_numeral)

subsection \<open>Peer identifiers\<close>

lemma truthy_validateId: "truthy (validateId (Some s)) \<longleftrightarrow> s = [] \<or> s \<in> lang validateId_re"
  by (simp add: validateId_def js_or_def regex_exec_def matches_lang)

text \<open>
  C1, as stated, fails. An identifier is accepted when \<open>validateId\<close> returns a truthy value.
  The first class of the pattern holds the underscore and the hyphen, so identifiers with
  a leading separator, with a trailing separator and with two consecutive separators are
  accepted.
\<close>

theorem validateId_separators_counterexample:
  "truthy (validateId (Some ''_a'')) \<and> leading separator ''_a'' \<and>
   truthy (validateId (Some ''a-'')) \<and> trailing separator ''a-'' \<and>
   truthy (validateId (Some ''a__b'')) \<and> consecutive separator ''a__b''"
  by code_simp

text \<open>
  C1, amended. \<open>validateId\<close> accepts the absent and the empty identifier, and otherwise
  accepts an identifier exactly when it is a non-empty segment of alphanumerics,
  underscores and hyphens followed by any number of groups, each one separator (space,
  underscore or hyphen) followed by a non-empty segment of alphanumerics. So it rejects
  every non-empty identifier with a leading or trailing space, with two consecutive
  spaces, or with a character that is neither alphanumeric nor a separator.
\<close>

theorem validateId_accepts_segmented:
  "(truthy (validateId peerId) \<longleftrightarrow>
      (case peerId of None \<Rightarrow> True | Some s \<Rightarrow> s = [] \<or> segmented s)) \<and>
   (\<forall>s. peerId = Some s \<and> s \<noteq> [] \<and>
        (leading is_space s \<or> trailing is_space s \<or> consecutive is_space s \<or>
         \<not> list_all allowed s) \<longrightarrow>
        \<not> truthy (validateId peerId))"
proof (cases peerId)
  case None
  then show ?thesis by (simp add: validateId_def js_or_def)
next
  case (Some s)
  have iff: "truthy (validateId (Some s)) \<longleftrightarrow> s = [] \<or> segmented s"
    unfolding truthy_validateId lang_validateId_re segmented_def ..
  have "\<not> leading is_space s \<and> \<not> trailing is_space s \<and> \<not> consecutive is_space s \<and>
        list_all allowed s" if "segmented s"
  proof -
    from that obtain w gs where "s = w @ groups gs" "w \<noteq> []"
      "list_all (in_class word_class) w" "list_all group_ok gs"
      unfolding segmented_def by blast
    then show ?thesis by (rule segmented_facts)
  qed
  with iff Some show ?thesis by auto
qed

text \<open>
  The theorem at three identifiers of the specification: \<open>a b-c_d\<close> is accepted and has the
  shape; \<open>a  b\<close> (two spaces) and \<open>a!b\<close> are rejected.
\<close>

theorem validateId_accepts_segmented_witness:
  "truthy (validateId (Some ''a b-c_d'')) \<and> segmented ''a b-c_d'' \<and>
   consecutive is_space ''a  b'' \<and> \<not> truthy (validateId (Some ''a  b'')) \<and>
   \<not> list_all allowed ''a!b'' \<and> \<not> truthy (validateId (Some ''a!b''))"
proof -
  have a: "truthy (validateId (Some ''a b-c_d''))" by code_simp
  have b: "consecutive is_space ''a  b''" by (simp add: is_space_def)
  have c: "\<not> list_all allowed ''a!b''"
    by (simp add: allowed_def alphanumeric_def alnum_class_def separator_def in_class_def)
  from a validateId_accepts_segmented [of "Some ''a b-c_d''"]
  have "segmented ''a b-c_d''" by simp
  moreover from b validateId_accepts_segmented [of "Some ''a  b''"]
  have "\<not> truthy (validateId (Some ''a  b''))" by blast
  moreover from c validateId_accepts_segmented [of "Some ''a!b''"]
  have "\<not> truthy (validateId (Some ''a!b''))" by blast
  ultimately show ?thesis using a b c by blast
qed

subsection \<open>API keys\<close>

lemma truthy_validateKey: "truthy (validateKey (Some k)) \<longleftrightarrow> k = [] \<or> k \<in> lang validateKey_re"
  by (simp add: validateKey_def js_or_def regex_exec_def matches_lang)

text \<open>
  C2, as stated, fails. The class of the key pattern is \<open>[a-z0-9]\<close>, all lowercase letters
  and not only the hexadecimal digits: a key of the letter \<open>z\<close> is accepted and is not the
  canonical text of a UUID.
\<close>

theorem validateKey_non_hex_counterexample:
  "truthy (validateKey (Some ''zzzzzzzz-zzzz-zzzz-zzzz-zzzzzzzzzzzz'')) \<and>
   \<not> canonical_uuid ''zzzzzzzz-zzzz-zzzz-zzzz-zzzzzzzzzzzz''"
proof -
  have "truthy (validateKey (Some ''zzzzzzzz-zzzz-zzzz-zzzz-zzzzzzzzzzzz''))" by code_simp
  moreover have "\<not> lower_hex (hd ''zzzzzzzz-zzzz-zzzz-zzzz-zzzzzzzzzzzz'')"
    by (simp add: lower_hex_def in_class_def)
  then have "\<not> canonical_uuid ''zzzzzzzz-zzzz-zzzz-zzzz-zzzzzzzzzzzz''"
    unfolding canonical_uuid_def using grouped_hd by blast
  ultimately show ?thesis by simp
qed

text \<open>
  C2, amended. \<open>validateKey\<close> accepts the absent and the empty key, and otherwise accepts
  a key exactly when it is five groups of 8, 4, 4, 4 and 12 characters, each a lowercase
  letter \<open>a-z\<close> or a digit, joined by hyphens.
\<close>

theorem validateKey_accepts_grouped:
  "truthy (validateKey key) \<longleftrightarrow>
     (case key of None \<Rightarrow> True | Some k \<Rightarrow> k = [] \<or> grouped (in_class key_class) k)"
proof (cases key)
  case None
  then show ?thesis by (simp add: validateKey_def js_or_def)
next
  case (Some k)
  then show ?thesis by (simp add: truthy_validateKey lang_validateKey_re)
qed

text \<open>
  The theorem at the two keys of the specification: the first is accepted and has the
  five groups, \<open>not-a-uuid\<close> is rejected and has not.
\<close>

theorem validateKey_accepts_grouped_witness:
  "truthy (validateKey (Some ''12345678-1234-1234-1234-123456789012'')) \<and>
   grouped (in_class key_class) ''12345678-1234-1234-1234-123456789012'' \<and>
   \<not> truthy (validateKey (Some ''not-a-uuid'')) \<and>
   \<not> grouped (in_class key_class) ''not-a-uuid''"
proof -
  have a: "truthy (validateKey (Some ''12345678-1234-1234-1234-123456789012''))"
    by code_simp
  have b: "\<not> truthy (validateKey (Some ''not-a-uuid''))"
    by code_simp
  from a validateKey_accepts_grouped [of "Some ''12345678-1234-1234-1234-123456789012''"]
  have "grouped (in_class key_class) ''12345678-1234-1234-1234-123456789012''" by simp
  moreover from b validateKey_accepts_grouped [of "Some ''not-a-uuid''"]
  have "\<not> grouped (in_class key_class) ''not-a-uuid''" by simp
  ultimately show ?thesis using a b by blast
qed

subsection \<open>What the validators return\<close>

text \<open>
  Both validators return the boolean \<open>true\<close> for an absent or empty argument and the
  result of \<open>exec\<close> for every other one.
\<close>

lemma validateId_is_boolean: "is_boolean (validateId peerId) \<longleftrightarrow> \<not> ToBoolean peerId"
  by (simp add: validateId_def js_or_def regex_exec_def Let_def)

lemma validateKey_is_boolean: "is_boolean (validateKey key) \<longleftrightarrow> \<not> ToBoolean key"
  by (simp add: validateKey_def js_or_def regex_exec_def Let_def)

text \<open>
  C6. The documentation of both validators promises a boolean. For a non-empty argument
  the result is the result of \<open>exec\<close>: the match array when the pattern matches, \<open>null\<close> when
  it does not. Neither is a boolean.
\<close>

theorem validators_return_non_boolean:
  "validateId (Some ''a'') = JSMatch ''a'' \<and> \<not> is_boolean (validateId (Some ''a'')) \<and>
   validateId (Some ''!'') = JSNull \<and> \<not> is_boolean (validateId (Some ''!'')) \<and>
   validateKey (Some ''12345678-1234-1234-1234-123456789012'')
     = JSMatch ''12345678-1234-1234-1234-123456789012'' \<and>
   validateKey (Some ''not-a-uuid'') = JSNull"
  by code_simp

subsection \<open>Message names\<close>

lemma position_None: "position name ns = None \<longleftrightarrow> name \<notin> set ns"
  by (induction ns) auto

lemma position_Some: "position name ns = Some i \<Longrightarrow> i < length ns \<and> ns ! i = name"
  by (induction ns arbitrary: i) (auto split: if_splits)

lemma position_inj:
  "position name ns = Some i \<Longrightarrow> position name' ns = Some i \<Longrightarrow> name = name'"
  using position_Some by blast

lemma MESSAGE_TYPES_listed: "MESSAGE_TYPES f = listed_names f"
  by (cases f)
    (simp_all add: clientMessages_def serverMessages_def ClientMessageKind_def
      ServerMessageKind_def)

lemma resolve_client_names:
  "map (resolve CLIENT) ClientMessageKind =
     map (\<lambda>(i, name). Inr \<lparr>kind_name = name, kind_code = i\<rparr>) (enumerate 0 ClientMessageKind)"
  by (simp add: ClientMessageKind_def resolve_def clientMessages_def)

lemma resolve_server_names:
  "map (resolve SERVER) ServerMessageKind =
     map (\<lambda>(i, name). Inr \<lparr>kind_name = name, kind_code = i\<rparr>) (enumerate 0 ServerMessageKind)"
  by (simp add: ServerMessageKind_def resolve_def serverMessages_def)

lemma resolve_distinct:
  assumes "resolve f name = Inr k" "resolve f name' = Inr k'" "name \<noteq> name'"
  shows "k \<noteq> k' \<and> kind_code k \<noteq> kind_code k'"
proof -
  from assms(1) obtain i where i: "position name (MESSAGE_TYPES f) = Some i"
    and k: "k = \<lparr>kind_name = name, kind_code = i\<rparr>"
    by (auto simp: resolve_def split: option.splits)
  from assms(2) obtain j where j: "position name' (MESSAGE_TYPES f) = Some j"
    and k': "k' = \<lparr>kind_name = name', kind_code = j\<rparr>"
    by (auto simp: resolve_def split: option.splits)
  from i j assms(3) have "i \<noteq> j" using position_inj by blast
  with k k' show ?thesis by simp
qed

text \<open>
  C4. The arrays of the source hold the names that section 3 of the specification lists,
  14 client names and 13 server names. Every listed name resolves, within its family, to
  the kind of that name whose code is the position of the name in the list: a number
  fixed by the constant array, the same at every lookup. Different names of a family
  resolve to different kinds with different codes, and a name that is not listed for the
  family fails with \<open>UnknownMessageKind\<close>.
\<close>

theorem message_names_resolve:
  "MESSAGE_TYPES f = listed_names f \<and>
   length (listed_names CLIENT) = 14 \<and> length (listed_names SERVER) = 13 \<and>
   map (resolve f) (listed_names f) =
     map (\<lambda>(i, name). Inr \<lparr>kind_name = name, kind_code = i\<rparr>) (enumerate 0 (listed_names f)) \<and>
   (\<forall>name \<in> set (listed_names f). \<forall>name' \<in> set (listed_names f). \<forall>k k'.
      resolve f name = Inr k \<and> resolve f name' = Inr k' \<and> name \<noteq> name' \<longrightarrow>
      k \<noteq> k' \<and> kind_code k \<noteq> kind_code k') \<and>
   (\<forall>name. name \<notin> set (listed_names f) \<longrightarrow> resolve f name = Inl UnknownMessageKind)"
proof -
  have len: "length (listed_names CLIENT) = 14 \<and> length (listed_names SERVER) = 13"
    by (simp add: ClientMessageKind_def ServerMessageKind_def)
  have table: "map (resolve f) (listed_names f) =
      map (\<lambda>(i, name). Inr \<lparr>kind_name = name, kind_code = i\<rparr>) (enumerate 0 (listed_names f))"
    by (cases f) (simp_all only: listed_names.simps resolve_client_names resolve_server_names)
  have unknown: "resolve f name = Inl UnknownMessageKind"
    if "name \<notin> set (listed_names f)" for name
    using that
    by (simp add: resolve_def MESSAGE_TYPES_listed [symmetric] position_None [symmetric])
  from MESSAGE_TYPES_listed len table unknown resolve_distinct show ?thesis by blast
qed

text \<open>
  The theorem at \<open>PING\<close> and \<open>SEND_OFFER\<close>, whose codes 12 and 0 differ, and at \<open>OPEN\<close>, which
  is no client name.
\<close>

theorem message_names_resolve_witness:
  "''PING'' \<in> set (listed_names CLIENT) \<and> ''SEND_OFFER'' \<in> set (listed_names CLIENT) \<and>
   resolve CLIENT ''PING'' = Inr \<lparr>kind_name = ''PING'', kind_code = 12\<rparr> \<and>
   resolve CLIENT ''SEND_OFFER'' = Inr \<lparr>kind_name = ''SEND_OFFER'', kind_code = 0\<rparr> \<and>
   kind_code \<lparr>kind_name = ''PING'', kind_code = 12\<rparr>
     \<noteq> kind_code \<lparr>kind_name = ''SEND_OFFER'', kind_code = 0\<rparr> \<and>
   ''OPEN'' \<notin> set (listed_names CLIENT) \<and>
   resolve CLIENT ''OPEN'' = Inl UnknownMessageKind \<and>
   MESSAGE_TYPES SERVER = listed_names SERVER"
proof -
  have m: "''PING'' \<in> set (listed_names CLIENT)" "''SEND_OFFER'' \<in> set (listed_names CLIENT)"
    "''PING'' \<noteq> ''SEND_OFFER''"
    by (simp_all add: ClientMessageKind_def)
  have n: "''OPEN'' \<notin> set (listed_names CLIENT)" by (simp add: ClientMessageKind_def)
  have p: "resolve CLIENT ''PING'' = Inr \<lparr>kind_name = ''PING'', kind_code = 12\<rparr>"
    by (simp add: resolve_def clientMessages_def)
  have q: "resolve CLIENT ''SEND_OFFER'' = Inr \<lparr>kind_name = ''SEND_OFFER'', kind_code = 0\<rparr>"
    by (simp add: resolve_def clientMessages_def)
  from message_names_resolve [of CLIENT] m p q
  have "kind_code \<lparr>kind_name = ''PING'', kind_code = 12\<rparr>
     \<noteq> kind_code \<lparr>kind_name = ''SEND_OFFER'', kind_code = 0\<rparr>"
    by blast
  moreover from message_names_resolve [of CLIENT] n
  have "resolve CLIENT ''OPEN'' = Inl UnknownMessageKind" by blast
  moreover from message_names_resolve [of SERVER]
  have "MESSAGE_TYPES SERVER = listed_names SERVER" by blast
  ultimately show ?thesis using m n p q by blast
qed

subsection \<open>The browser probe\<close>

text \<open>
  C8, as stated, fails. In a runtime with no global \<open>window\<close> the probe throws
  \<open>ReferenceError\<close>: it returns none of the four values, the constructor throws with it and
  the module does not load.
\<close>

theorem browser_probe_no_window_counterexample:
  "browser_probe None = Inl ReferenceError \<and> constructor None = Inl ReferenceError \<and>
   load_module None = Inl ReferenceError"
  by (simp add: browser_probe_def constructor_def load_module_def)

text \<open>
  C8, amended. In every runtime that has a global \<open>window\<close> the probe returns one of four
  strings: \<open>Firefox\<close> when the Firefox-prefixed constructor is present, else \<open>Chrome\<close> when
  the WebKit-prefixed one is, else \<open>Supported\<close> when the standard one is, else
  \<open>Unsupported\<close>. The value is computed when the module is loaded and stored: reading it
  later gives the value of load time, whatever the global object has become. In a
  runtime without a global \<open>window\<close> the probe throws \<open>ReferenceError\<close>.
\<close>

theorem browser_probe_cases:
  "browser_probe (Some w)
     \<in> {Inr ''Firefox'', Inr ''Chrome'', Inr ''Supported'', Inr ''Unsupported''} \<and>
   (mozRTCPeerConnection w \<longrightarrow> browser_probe (Some w) = Inr ''Firefox'') \<and>
   (\<not> mozRTCPeerConnection w \<and> webkitRTCPeerConnection w \<longrightarrow>
      browser_probe (Some w) = Inr ''Chrome'') \<and>
   (\<not> mozRTCPeerConnection w \<and> \<not> webkitRTCPeerConnection w \<and> RTCPeerConnection w \<longrightarrow>
      browser_probe (Some w) = Inr ''Supported'') \<and>
   (\<not> mozRTCPeerConnection w \<and> \<not> webkitRTCPeerConnection w \<and> \<not> RTCPeerConnection w \<longrightarrow>
      browser_probe (Some w) = Inr ''Unsupported'') \<and>
   (\<exists>rt. load_module (Some w) = Inr rt \<and>
      Inr (read_browser rt) = browser_probe (Some w) \<and>
      Inr (read_browser (rt\<lparr>global_window := g'\<rparr>)) = browser_probe (Some w)) \<and>
   browser_probe None = Inl ReferenceError"
  by (simp add: browser_probe_def read_browser_def load_module_def constructor_def)

text \<open>The four cases, the first with all three constructors present.\<close>

theorem browser_probe_cases_witness:
  "browser_probe (Some \<lparr>mozRTCPeerConnection = True, webkitRTCPeerConnection = True,
                  RTCPeerConnection = True\<rparr>) = Inr ''Firefox'' \<and>
   browser_probe (Some \<lparr>mozRTCPeerConnection = False, webkitRTCPeerConnection = True,
                  RTCPeerConnection = True\<rparr>) = Inr ''Chrome'' \<and>
   browser_probe (Some \<lparr>mozRTCPeerConnection = False, webkitRTCPeerConnection = False,
                  RTCPeerConnection = True\<rparr>) = Inr ''Supported'' \<and>
   browser_probe (Some \<lparr>mozRTCPeerConnection = False, webkitRTCPeerConnection = False,
                  RTCPeerConnection = False\<rparr>) = Inr ''Unsupported''"
  using
    browser_probe_cases [of "\<lparr>mozRTCPeerConnection = True, webkitRTCPeerConnection = True,
                  RTCPeerConnection = True\<rparr>"]
    browser_probe_cases [of "\<lparr>mozRTCPeerConnection = False, webkitRTCPeerConnection = True,
                  RTCPeerConnection = True\<rparr>"]
    browser_probe_cases [of "\<lparr>mozRTCPeerConnection = False, webkitRTCPeerConnection = False,
                  RTCPeerConnection = True\<rparr>"]
    browser_probe_cases [of "\<lparr>mozRTCPeerConnection = False, webkitRTCPeerConnection = False,
                  RTCPeerConnection = False\<rparr>"]
  by simp

subsection \<open>Random strings\<close>

lemma digit36_zero: "digit36 CHR ''0''"
  by (simp add: digit36_def in_class_def)

text \<open>
  C7. For every rendering of the random number, \<open>randomId\<close> returns 16 characters of
  \<open>0-9a-z\<close>; when the rendering has fewer than 16 digits after the point, the result is
  these digits followed by zeros.
\<close>

theorem randomId_sixteen:
  assumes "rendering r"
  shows "length (randomId r) = 16 \<and> list_all digit36 (randomId r) \<and>
         (length (drop 2 r) < 16 \<longrightarrow>
            randomId r = drop 2 r @ replicate (16 - length (drop 2 r)) CHR ''0'')"
proof -
  have z: "''0000000000000000000'' = replicate 19 CHR ''0''"
    by (simp add: eval_nat_numeral)
  show ?thesis
  proof (cases "r = ''0''")
    case True
    then show ?thesis
      by (simp add: randomId_def substr_def digit36_zero eval_nat_numeral)
  next
    case False
    with assms have len: "2 < length r" and dig: "list_all digit36 (drop 2 r)"
      by (simp_all add: rendering_def)
    have eq: "randomId r = take 16 (drop 2 r @ replicate 19 CHR ''0'')"
      using len unfolding randomId_def substr_def z by simp
    have "length (randomId r) = 16" unfolding eq by simp
    moreover have "list_all digit36 (drop 2 r @ replicate 19 CHR ''0'')"
      using dig by (simp add: list_all_iff digit36_zero)
    then have "list_all digit36 (randomId r)"
      unfolding eq list_all_iff using in_set_takeD by fast
    moreover have "randomId r = drop 2 r @ replicate (16 - length (drop 2 r)) CHR ''0''"
      if "length (drop 2 r) < 16"
      using that unfolding eq by (simp add: min_def)
    ultimately show ?thesis by blast
  qed
qed

text \<open>The theorem at the renderings of 1/16 and of 0.\<close>

theorem randomId_sixteen_witness:
  "rendering ''0.29'' \<and> randomId ''0.29'' = ''2900000000000000'' \<and>
   rendering ''0'' \<and> randomId ''0'' = ''0000000000000000''"
proof -
  have a: "rendering ''0.29''" by (simp add: rendering_def digit36_def in_class_def)
  have b: "rendering ''0''" by (simp add: rendering_def)
  from randomId_sixteen [OF a] have "randomId ''0.29'' = ''2900000000000000''"
    by (simp add: eval_nat_numeral)
  moreover from randomId_sixteen [OF b] have "randomId ''0'' = ''0000000000000000''"
    by (simp add: eval_nat_numeral)
  ultimately show ?thesis using a b by blast
qed

text \<open>
  C10. When the random number is 0 its rendering is \<open>0\<close>, and \<open>randomToken\<close> returns the
  empty string; the renderings of 1/2 and 1/16 give tokens of one and of two characters.
  The length of the token is neither positive nor fixed.
\<close>

theorem randomToken_can_be_empty:
  "rendering ''0'' \<and> randomToken ''0'' = [] \<and>
   rendering ''0.i'' \<and> randomToken ''0.i'' = ''i'' \<and>
   rendering ''0.29'' \<and> randomToken ''0.29'' = ''29''"
  by (simp add: rendering_def randomToken_def substr_from_def digit36_def in_class_def)

subsection \<open>Byte buffers\<close>

lemma foldl_byteLength:
  "foldl (\<lambda>sum buffer. sum + byteLength buffer) n buffers = n + length (concat buffers)"
  by (induction buffers arbitrary: n) (simp_all add: byteLength_def)

lemma join_loop_concat:
  "length tmpArray = length done + length (concat buffers) \<Longrightarrow>
   take (length done) tmpArray = done \<Longrightarrow>
   join_loop buffers tmpArray (length done) = Inr (done @ concat buffers)"
proof (induction buffers arbitrary: tmpArray "done")
  case Nil
  then show ?case by simp
next
  case (Cons buffer buffers)
  let ?t = "take (length done) tmpArray @ buffer @ drop (length done + length buffer) tmpArray"
  have fits: "\<not> length done + length buffer > length tmpArray"
    using Cons.prems(1) by simp
  have len: "length ?t = length (done @ buffer) + length (concat buffers)"
    using Cons.prems(1) by simp
  have pre: "take (length (done @ buffer)) ?t = done @ buffer"
    using Cons.prems by simp
  have "join_loop buffers ?t (length (done @ buffer)) = Inr ((done @ buffer) @ concat buffers)"
    by (rule Cons.IH [OF len pre])
  then show ?case
    using fits by (simp add: typed_array_set_def byteLength_def)
qed

text \<open>
  C5. For every list of byte buffers, \<open>joinArrayBuffers\<close> returns (it does not throw) one
  buffer whose content is the concatenation of the inputs in list order, nothing added,
  and whose length is the sum of the input lengths.
\<close>

theorem joinArrayBuffers_concat:
  "joinArrayBuffers buffers = Inr (concat buffers) \<and>
   (case joinArrayBuffers buffers of
      Inl e \<Rightarrow> False
    | Inr joined \<Rightarrow> byteLength joined = sum_list (map byteLength buffers))"
proof -
  have "join_loop buffers (replicate (length (concat buffers)) 0) (length ([] :: byte list))
          = Inr ([] @ concat buffers)"
    by (rule join_loop_concat) simp_all
  then have eq: "joinArrayBuffers buffers = Inr (concat buffers)"
    by (simp add: joinArrayBuffers_def foldl_byteLength)
  have "length (concat buffers) = sum_list (map length buffers)"
    by (simp add: length_concat)
  then have "byteLength (concat buffers) = sum_list (map byteLength buffers)"
    by (simp add: byteLength_def [abs_def])
  with eq show ?thesis by simp
qed

subsection \<open>The chunk size\<close>

text \<open>
  C9. The configured maximum chunk size is strictly below the frame limit of 16 KiB
  (16384 bytes); 84 bytes remain for the metadata. The constructor yields an object in
  every runtime with a global \<open>window\<close>, and every object it yields has this chunk size.
\<close>

theorem maxChunkSize_below_limit:
  "(\<exists>u. constructor (Some w) = Inr u) \<and>
   (\<forall>u. constructor g = Inr u \<longrightarrow>
      maxChunkSize u < 16 * 1024 \<and> 16 * 1024 - maxChunkSize u = 84)"
  by (auto simp: constructor_def browser_probe_def split: option.splits)

text \<open>The theorem at a runtime whose \<open>window\<close> has the standard constructor only.\<close>

theorem maxChunkSize_below_limit_witness:
  "(\<exists>u. constructor (Some \<lparr>mozRTCPeerConnection = False, webkitRTCPeerConnection = False,
                           RTCPeerConnection = True\<rparr>) = Inr u \<and>
        maxChunkSize u < 16 * 1024 \<and> 16 * 1024 - maxChunkSize u = 84)"
  using maxChunkSize_below_limit
    [of "\<lparr>mozRTCPeerConnection = False, webkitRTCPeerConnection = False,
          RTCPeerConnection = True\<rparr>"
        "Some \<lparr>mozRTCPeerConnection = False, webkitRTCPeerConnection = False,
          RTCPeerConnection = True\<rparr>"]
  by blast

end
